theory Spec2Isabelle
  imports Main "HOL-Library.Multiset" "HOL-Library.Char_ord" "HOL-Library.List_Lexorder"
begin

section \<open>Strings\<close>

text \<open>
  JavaScript strings are modelled as \<^typ>\<open>string\<close>. The source compares them only
  for equality, prefix and suffix, and rewrites them by concatenation and by replacing an
  occurrence of a literal.
\<close>

definition startsWith :: "string \<Rightarrow> string \<Rightarrow> bool" where
  \<comment> \<open>\<^verbatim>\<open>s.startsWith(p)\<close>\<close>
  "startsWith s p = (take (length p) s = p)"

definition endsWith :: "string \<Rightarrow> string \<Rightarrow> bool" where
  \<comment> \<open>\<^verbatim>\<open>s.endsWith(p)\<close>\<close>
  "endsWith s p = (length p \<le> length s \<and> drop (length s - length p) s = p)"

fun replace_first :: "string \<Rightarrow> string \<Rightarrow> string \<Rightarrow> string" where
  \<comment> \<open>\<^verbatim>\<open>s.replace(pat, rep)\<close> with a string pattern: only the first occurrence
      of \<open>pat\<close> is replaced. The replacement used by the source has no \<^verbatim>\<open>$\<close>.\<close>
  "replace_first pat rep [] = (if pat = [] then rep else [])"
| "replace_first pat rep (c # cs) =
     (if startsWith (c # cs) pat then rep @ drop (length pat) (c # cs)
      else c # replace_first pat rep cs)"

definition ascii_upper :: string where
  "ascii_upper = ''ABCDEFGHIJKLMNOPQRSTUVWXYZ''"

definition ascii_lower :: string where
  "ascii_lower = ''abcdefghijklmnopqrstuvwxyz''"

definition toLowerChar :: "char \<Rightarrow> char" where
  "toLowerChar c = (case map_of (zip ascii_upper ascii_lower) c of Some l \<Rightarrow> l | None \<Rightarrow> c)"

definition toLowerCase :: "string \<Rightarrow> string" where
  \<comment> \<open>\<^verbatim>\<open>s.toLowerCase()\<close>. Only the ASCII letters are mapped: no character outside
      ASCII lower-cases to one of \<open>.\<close>, \<open>j\<close>, \<open>a\<close>, \<open>r\<close>, the only characters the
      source compares the result with.\<close>
  "toLowerCase s = map toLowerChar s"

section \<open>The \<^verbatim>\<open>path\<close> module (POSIX flavour)\<close>

text \<open>
  The source calls \<^verbatim>\<open>path.resolve\<close>, \<^verbatim>\<open>path.join\<close>, \<^verbatim>\<open>path.extname\<close> and
  \<^verbatim>\<open>path.basename\<close> of Node.js. They are pure string functions; the definitions below
  follow \<^verbatim>\<open>path.posix\<close>. The working directory of the process, which
  \<^verbatim>\<open>path.resolve\<close> consults when no argument is absolute, is the parameter \<open>cwd\<close>.
\<close>

fun split_slash :: "string \<Rightarrow> string list" where
  "split_slash [] = [[]]"
| "split_slash (c # cs) =
     (if c = CHR ''/'' then [] # split_slash cs
      else (case split_slash cs of [] \<Rightarrow> [[c]] | w # ws \<Rightarrow> (c # w) # ws))"

fun join_slash :: "string list \<Rightarrow> string" where
  "join_slash [] = []"
| "join_slash [s] = s"
| "join_slash (s # t # ts) = s @ ''/'' @ join_slash (t # ts)"

definition normalize_step :: "bool \<Rightarrow> string list \<Rightarrow> string \<Rightarrow> string list" where
  \<comment> \<open>One segment of \<^verbatim>\<open>normalizeString\<close>: empty and \<open>.\<close> segments are dropped,
      \<open>..\<close> removes the last kept segment, or is kept when nothing can be removed and
      the path is relative.\<close>
  "normalize_step allowAboveRoot res seg =
     (if seg = [] \<or> seg = ''.'' then res
      else if seg = ''..'' then
        (if res \<noteq> [] \<and> last res \<noteq> ''..'' then butlast res
         else if allowAboveRoot then res @ [''..'']
         else res)
      else res @ [seg])"

definition normalizeString :: "bool \<Rightarrow> string \<Rightarrow> string list" where
  "normalizeString allowAboveRoot p = foldl (normalize_step allowAboveRoot) [] (split_slash p)"

fun resolve_loop :: "string list \<Rightarrow> string \<Rightarrow> string \<times> bool" where
  \<comment> \<open>The right-to-left loop of \<^verbatim>\<open>path.resolve\<close>: arguments are prepended until an
      absolute one has been met; empty arguments are skipped.\<close>
  "resolve_loop [] acc = (acc, False)"
| "resolve_loop (p # ps) acc =
     (if p = [] then resolve_loop ps acc
      else if hd p = CHR ''/'' then (p @ ''/'' @ acc, True)
      else resolve_loop ps (p @ ''/'' @ acc))"

definition path_resolve :: "string \<Rightarrow> string list \<Rightarrow> string" where
  "path_resolve cwd args =
     (case resolve_loop (rev args @ [cwd]) [] of
        (resolvedPath, resolvedAbsolute) \<Rightarrow>
          (let segs = normalizeString (\<not> resolvedAbsolute) resolvedPath in
           if resolvedAbsolute then ''/'' @ join_slash segs
           else if segs = [] then ''.'' else join_slash segs))"

definition path_normalize :: "string \<Rightarrow> string" where
  "path_normalize p =
     (if p = [] then ''.''
      else
        (let isAbsolute = (hd p = CHR ''/'');
             trailingSeparator = (last p = CHR ''/'');
             segs = normalizeString (\<not> isAbsolute) p
         in if segs = [] then
              (if isAbsolute then ''/'' else if trailingSeparator then ''./'' else ''.'')
            else (if isAbsolute then ''/'' else []) @ join_slash segs
                 @ (if trailingSeparator then ''/'' else [])))"

definition path_join :: "string list \<Rightarrow> string" where
  "path_join args =
     (let parts = filter (\<lambda>a. a \<noteq> []) args in
      if parts = [] then ''.'' else path_normalize (join_slash parts))"

definition last_part :: "string \<Rightarrow> string" where
  \<comment> \<open>The last portion of a path, trailing separators ignored.\<close>
  "last_part p =
     rev (takeWhile (\<lambda>c. c \<noteq> CHR ''/'') (dropWhile (\<lambda>c. c = CHR ''/'') (rev p)))"

definition path_basename :: "string \<Rightarrow> string" where
  "path_basename p = last_part p"

definition path_extname :: "string \<Rightarrow> string" where
  \<comment> \<open>From the last \<open>.\<close> of the last portion to its end; empty when there is no
      \<open>.\<close>, when the only \<open>.\<close> is the first character, or when the portion is \<open>..\<close>.\<close>
  "path_extname p =
     (let b = last_part p;
          r = rev b;
          after = takeWhile (\<lambda>c. c \<noteq> CHR ''.'') r;
          upto = dropWhile (\<lambda>c. c \<noteq> CHR ''.'') r
      in if upto = [] \<or> tl upto = [] \<or> b = ''..'' then []
         else CHR ''.'' # rev after)"

definition clean_seg :: "string \<Rightarrow> bool" where
  \<comment> \<open>A segment that normalization keeps as it is: a file name.\<close>
  "clean_seg n = (n \<noteq> [] \<and> n \<noteq> ''.'' \<and> n \<noteq> ''..'' \<and> CHR ''/'' \<notin> set n)"

section \<open>Path Confiner\<close>

definition safePath :: "string \<Rightarrow> string \<Rightarrow> string option \<Rightarrow> string option" where
  \<comment> \<open>\<^verbatim>\<open>safePath(base, rel)\<close>; \<open>rel\<close> is \<open>None\<close> when the request carries no path
      (\<^verbatim>\<open>undefined\<close>), and \<^verbatim>\<open>rel || ""\<close> turns that, like the empty string,
      into the empty string. The result \<open>None\<close> is the source's \<^verbatim>\<open>null\<close>.\<close>
  "safePath cwd base rel =
     (let full = path_resolve cwd [base, (case rel of None \<Rightarrow> [] | Some r \<Rightarrow> r)] in
      if \<not> startsWith full (path_resolve cwd [base]) then None else Some full)"

section \<open>The file system\<close>

text \<open>
  The handlers act on the disk through the synchronous calls of the \<^verbatim>\<open>fs\<close> module.
  The disk is an association list from absolute, normalized paths (no trailing separator)
  to nodes; a call that fails returns the error code that Node.js would throw. A regular
  file carries its bytes and its modification time, \<^verbatim>\<open>stats.size\<close> of a file is the
  number of its bytes. Directories keep the size and time that \<^verbatim>\<open>stat\<close> reports;
  the modelled calls do not advance the time of a parent directory. There are no symbolic
  links and no permission failures.
\<close>

datatype node =
    File (bytes: string) (mtime: nat)
  | Directory (dir_size: nat) (dir_mtime: nat)

type_synonym filesystem = "(string \<times> node) list"

datatype errno = ENOENT | ENOTDIR | EISDIR | ENOTEMPTY | EINVAL

fun isDirectory_node :: "node \<Rightarrow> bool" where
  "isDirectory_node (File b t) = False"
| "isDirectory_node (Directory s t) = True"

fun node_size :: "node \<Rightarrow> nat" where
  "node_size (File b t) = length b"
| "node_size (Directory s t) = s"

fun node_mtime :: "node \<Rightarrow> nat" where
  "node_mtime (File b t) = t"
| "node_mtime (Directory s t) = t"

definition existsSync :: "filesystem \<Rightarrow> string \<Rightarrow> bool" where
  "existsSync fs p = (map_of fs p \<noteq> None)"

definition statSync :: "filesystem \<Rightarrow> string \<Rightarrow> errno + node" where
  "statSync fs p = (case map_of fs p of None \<Rightarrow> Inl ENOENT | Some n \<Rightarrow> Inr n)"

definition dir_prefix :: "string \<Rightarrow> string" where
  "dir_prefix d = (if d = ''/'' then ''/'' else d @ ''/'')"

definition below :: "string \<Rightarrow> string \<Rightarrow> bool" where
  \<comment> \<open>\<open>below d p\<close>: the path \<open>p\<close> lies strictly inside the directory \<open>d\<close>.\<close>
  "below d p = (startsWith p (dir_prefix d) \<and> p \<noteq> d)"

definition parent_path :: "string \<Rightarrow> string" where
  "parent_path p =
     (let d = rev (tl (dropWhile (\<lambda>c. c \<noteq> CHR ''/'') (rev p)))
      in if d = [] then ''/'' else d)"

definition child_name :: "string \<Rightarrow> string \<Rightarrow> string option" where
  \<comment> \<open>The name under which \<open>p\<close> is an immediate child of \<open>d\<close>, if it is one.\<close>
  "child_name d p =
     (if below d p then
        (let n = drop (length (dir_prefix d)) p
         in if n = [] \<or> n = ''.'' \<or> n = ''..'' \<or> CHR ''/'' \<in> set n then None
            else Some n)
      else None)"

definition readdirSync :: "filesystem \<Rightarrow> string \<Rightarrow> errno + (string \<times> node) list" where
  \<comment> \<open>The immediate children of a directory, each with its node (the \<^verbatim>\<open>Dirent\<close>),
      in the order of the disk.\<close>
  "readdirSync fs d =
     (case map_of fs d of
        None \<Rightarrow> Inl ENOENT
      | Some (File b t) \<Rightarrow> Inl ENOTDIR
      | Some (Directory s t) \<Rightarrow>
          Inr (concat (map (\<lambda>(k, v). case child_name d k of None \<Rightarrow> [] | Some n \<Rightarrow> [(n, v)]) fs)))"

definition move :: "filesystem \<Rightarrow> string \<Rightarrow> string \<Rightarrow> filesystem" where
  \<comment> \<open>The entry at \<open>oldPath\<close>, with everything inside it, takes the place of
      \<open>newPath\<close>.\<close>
  "move fs oldPath newPath =
     map (\<lambda>(k, v). (if k = oldPath \<or> below oldPath k
                     then newPath @ drop (length oldPath) k else k, v))
         (filter (\<lambda>(k, v). k \<noteq> newPath) fs)"

definition renameSync :: "filesystem \<Rightarrow> string \<Rightarrow> string \<Rightarrow> errno + filesystem" where
  \<comment> \<open>\<^verbatim>\<open>fs.renameSync\<close>, that is \<^verbatim>\<open>rename(2)\<close>: an existing file at the new
      path is replaced without notice.\<close>
  "renameSync fs oldPath newPath =
     (case map_of fs oldPath of
        None \<Rightarrow> Inl ENOENT
      | Some src \<Rightarrow>
          (case map_of fs (parent_path newPath) of
             None \<Rightarrow> Inl ENOENT
           | Some (File b t) \<Rightarrow> Inl ENOTDIR
           | Some (Directory s t) \<Rightarrow>
               if oldPath = newPath then Inr fs
               else if below oldPath newPath then Inl EINVAL
               else
                 (case map_of fs newPath of
                    None \<Rightarrow> Inr (move fs oldPath newPath)
                  | Some (File b' t') \<Rightarrow>
                      if isDirectory_node src then Inl ENOTDIR
                      else Inr (move fs oldPath newPath)
                  | Some (Directory s' t') \<Rightarrow>
                      if \<not> isDirectory_node src then Inl EISDIR
                      else if \<exists>k \<in> set (map fst fs). below newPath k then Inl ENOTEMPTY
                      else Inr (move fs oldPath newPath))))"

definition unlinkSync :: "filesystem \<Rightarrow> string \<Rightarrow> errno + filesystem" where
  "unlinkSync fs p =
     (case map_of fs p of
        None \<Rightarrow> Inl ENOENT
      | Some (Directory s t) \<Rightarrow> Inl EISDIR
      | Some (File b t) \<Rightarrow> Inr (filter (\<lambda>(k, v). k \<noteq> p) fs))"

definition writeStream :: "filesystem \<Rightarrow> string \<Rightarrow> string \<Rightarrow> nat \<Rightarrow> errno + filesystem" where
  \<comment> \<open>Writing a whole file at time \<open>now\<close>, as the disk storage of the upload middleware
      does with \<^verbatim>\<open>fs.createWriteStream\<close>: an existing file is overwritten.\<close>
  "writeStream fs p data now =
     (case map_of fs (parent_path p) of
        None \<Rightarrow> Inl ENOENT
      | Some (File b t) \<Rightarrow> Inl ENOTDIR
      | Some (Directory s t) \<Rightarrow>
          (case map_of fs p of
             Some (Directory s' t') \<Rightarrow> Inl EISDIR
           | _ \<Rightarrow> Inr (filter (\<lambda>(k, v). k \<noteq> p) fs @ [(p, File data now)])))"

definition only_directories_nest :: "filesystem \<Rightarrow> bool" where
  \<comment> \<open>Well-formedness of a disk: whatever has an entry inside it is a directory.\<close>
  "only_directories_nest fs =
     (\<forall>(k, v) \<in> set fs. \<forall>(k', v') \<in> set fs. below k k' \<longrightarrow> isDirectory_node v)"

section \<open>Responses\<close>

record mod_entry =
  mod_name :: string
  mod_size :: nat
  enabled :: bool
  mod_modified :: nat

record file_entry =
  entry_name :: string
  isDirectory :: bool
  entry_size :: nat
  entry_modified :: nat

datatype body =
    Message string
  | Error string
  | Mods "mod_entry list"
  | Items "file_entry list"
  | FileContent string string
  | Online int int string string int
  | Offline string
  | Caught errno
  | Uncaught errno

text \<open>
  \<open>FileContent content name\<close> is the reply \<^verbatim>\<open>{content, name}\<close> of the read handler;
  \<open>Online online max version motd latency\<close> is the status snapshot of a reachable server
  (\<^verbatim>\<open>online: true\<close>, the player counts, the version name, the clean message of the day
  and the round-trip latency) and \<open>Offline message\<close> the snapshot
  \<^verbatim>\<open>{online: false, error: message}\<close>. \<open>Message\<close> and \<open>Error\<close> are the bodies
  \<^verbatim>\<open>{message}\<close> and \<^verbatim>\<open>{error}\<close>.
  \<open>Caught e\<close> is the body \<^verbatim>\<open>{error: err.message}\<close> that a handler builds from a
  file-system exception \<open>e\<close> it has caught.
  \<open>Uncaught e\<close> is the reply of the framework's default error handler (status 500) when
  a handler without \<^verbatim>\<open>try\<close> lets a file-system exception escape.
\<close>

datatype response = Response (status: nat) (body: body)

section \<open>Mod Store\<close>

text \<open>\<open>MODS_DIR\<close> is read from the environment; it is a parameter of every handler.\<close>

datatype filter_result = Accepted | Rejected string

definition fileFilter :: "string \<Rightarrow> filter_result" where
  \<comment> \<open>\<^verbatim>\<open>modUpload.fileFilter\<close> on \<^verbatim>\<open>file.originalname\<close>.\<close>
  "fileFilter originalname =
     (if toLowerCase (path_extname originalname) = ''.jar'' then Accepted
      else Rejected ''Only .jar files are allowed'')"

definition modStorage :: "string \<Rightarrow> filesystem \<Rightarrow> string \<Rightarrow> string \<Rightarrow> nat \<Rightarrow> errno + filesystem" where
  \<comment> \<open>\<^verbatim>\<open>modStorage\<close>: destination \<open>MODS_DIR\<close>, file name \<^verbatim>\<open>file.originalname\<close>.\<close>
  "modStorage MODS_DIR fs originalname data now =
     writeStream fs (path_join [MODS_DIR, originalname]) data now"

fun collect :: "('a \<Rightarrow> errno + 'b) \<Rightarrow> 'a list \<Rightarrow> errno + 'b list" where
  \<comment> \<open>\<^verbatim>\<open>xs.map(f)\<close> where \<open>f\<close> may throw: the first exception ends the map.\<close>
  "collect f [] = Inr []"
| "collect f (x # xs) =
     (case f x of
        Inl e \<Rightarrow> Inl e
      | Inr y \<Rightarrow> (case collect f xs of Inl e \<Rightarrow> Inl e | Inr ys \<Rightarrow> Inr (y # ys)))"

definition mod_of :: "string \<Rightarrow> filesystem \<Rightarrow> string \<Rightarrow> errno + mod_entry" where
  "mod_of MODS_DIR fs f =
     (case statSync fs (path_join [MODS_DIR, f]) of
        Inl e \<Rightarrow> Inl e
      | Inr stats \<Rightarrow>
          Inr \<lparr>mod_name = f, mod_size = node_size stats, enabled = endsWith f ''.jar'',
               mod_modified = node_mtime stats\<rparr>)"

definition is_mod_name :: "string \<Rightarrow> bool" where
  "is_mod_name f = (endsWith f ''.jar'' \<or> endsWith f ''.jar.disabled'')"

definition get_mods :: "string \<Rightarrow> filesystem \<Rightarrow> response" where
  \<comment> \<open>\<^verbatim>\<open>GET /api/mods\<close>\<close>
  "get_mods MODS_DIR fs =
     (case readdirSync fs MODS_DIR of
        Inl e \<Rightarrow> Response 500 (Uncaught e)
      | Inr files \<Rightarrow>
          (case collect (mod_of MODS_DIR fs) (filter is_mod_name (map fst files)) of
             Inl e \<Rightarrow> Response 500 (Uncaught e)
           | Inr mods \<Rightarrow> Response 200 (Mods mods)))"

definition delete_mod :: "string \<Rightarrow> filesystem \<Rightarrow> string \<Rightarrow> response \<times> filesystem" where
  \<comment> \<open>\<^verbatim>\<open>DELETE /api/mods/:name\<close>; \<open>name\<close> is the decoded route parameter.\<close>
  "delete_mod MODS_DIR fs name =
     (let filePath = path_join [MODS_DIR, name] in
      if \<not> existsSync fs filePath then (Response 404 (Error ''Not found''), fs)
      else
        (case unlinkSync fs filePath of
           Inl e \<Rightarrow> (Response 500 (Uncaught e), fs)
         | Inr fs' \<Rightarrow> (Response 200 (Message (''Deleted '' @ name)), fs')))"

definition toggle_newName :: "string \<Rightarrow> string option" where
  \<comment> \<open>The \<^verbatim>\<open>newName\<close> chosen by the toggle handler; \<open>None\<close> for
      \<^verbatim>\<open>Not a mod file\<close>.\<close>
  "toggle_newName name =
     (if endsWith name ''.jar.disabled''
        then Some (replace_first ''.jar.disabled'' ''.jar'' name)
      else if endsWith name ''.jar'' then Some (name @ ''.disabled'')
      else None)"

definition toggle :: "string \<Rightarrow> filesystem \<Rightarrow> string \<Rightarrow> response \<times> filesystem" where
  \<comment> \<open>\<^verbatim>\<open>PATCH /api/mods/:name/toggle\<close>\<close>
  "toggle MODS_DIR fs name =
     (let filePath = path_join [MODS_DIR, name] in
      if \<not> existsSync fs filePath then (Response 404 (Error ''Not found''), fs)
      else
        (case toggle_newName name of
           None \<Rightarrow> (Response 400 (Error ''Not a mod file''), fs)
         | Some newName \<Rightarrow>
             (case renameSync fs filePath (path_join [MODS_DIR, newName]) of
                Inl e \<Rightarrow> (Response 500 (Uncaught e), fs)
              | Inr fs' \<Rightarrow> (Response 200 (Message (''Renamed to '' @ newName)), fs'))))"

section \<open>File Tree Manager\<close>

text \<open>\<open>DATA_DIR\<close> is read from the environment; it is a parameter of every handler.\<close>

definition readFileSync :: "filesystem \<Rightarrow> string \<Rightarrow> errno + string" where
  "readFileSync fs p =
     (case map_of fs p of
        None \<Rightarrow> Inl ENOENT
      | Some (Directory s t) \<Rightarrow> Inl EISDIR
      | Some (File b t) \<Rightarrow> Inr b)"

definition compare_items :: "(string \<Rightarrow> string \<Rightarrow> int) \<Rightarrow> file_entry \<Rightarrow> file_entry \<Rightarrow> int" where
  \<comment> \<open>The comparator handed to \<^verbatim>\<open>items.sort\<close>; \<open>localeCompare\<close> is
      \<^verbatim>\<open>String.prototype.localeCompare\<close> of the runtime.\<close>
  "compare_items localeCompare a b =
     (if isDirectory a = isDirectory b then localeCompare (entry_name a) (entry_name b)
      else if isDirectory a then - 1 else 1)"

fun insert_by :: "('a \<Rightarrow> 'a \<Rightarrow> int) \<Rightarrow> 'a \<Rightarrow> 'a list \<Rightarrow> 'a list" where
  "insert_by cmp x [] = [x]"
| "insert_by cmp x (y # ys) =
     (if cmp x y \<le> 0 then x # y # ys else y # insert_by cmp x ys)"

definition array_sort :: "('a \<Rightarrow> 'a \<Rightarrow> int) \<Rightarrow> 'a list \<Rightarrow> 'a list" where
  \<comment> \<open>\<^verbatim>\<open>Array.prototype.sort\<close> with a comparator. The language fixes the result for a
      consistent comparator: sorted, and stable. Insertion from the right computes it.\<close>
  "array_sort cmp xs = foldr (insert_by cmp) xs []"

definition item_of :: "filesystem \<Rightarrow> string \<Rightarrow> string \<times> node \<Rightarrow> errno + file_entry" where
  "item_of fs dir e =
     (case statSync fs (path_join [dir, fst e]) of
        Inl err \<Rightarrow> Inl err
      | Inr stats \<Rightarrow>
          Inr \<lparr>entry_name = fst e, isDirectory = isDirectory_node (snd e),
               entry_size = node_size stats, entry_modified = node_mtime stats\<rparr>)"

definition get_files ::
  "(string \<Rightarrow> string \<Rightarrow> int) \<Rightarrow> string \<Rightarrow> string \<Rightarrow> filesystem \<Rightarrow> string option \<Rightarrow> response" where
  \<comment> \<open>\<^verbatim>\<open>GET /api/files?path=\<close>\<close>
  "get_files localeCompare cwd DATA_DIR fs qpath =
     (case safePath cwd DATA_DIR qpath of
        None \<Rightarrow> Response 400 (Error ''Invalid path'')
      | Some dir \<Rightarrow>
          if \<not> existsSync fs dir then Response 404 (Error ''Directory not found'')
          else
            (case readdirSync fs dir of
               Inl err \<Rightarrow> Response 500 (Caught err)
             | Inr entries \<Rightarrow>
                 (case collect (item_of fs dir) entries of
                    Inl err \<Rightarrow> Response 500 (Caught err)
                  | Inr items \<Rightarrow>
                      Response 200 (Items (array_sort (compare_items localeCompare) items)))))"

definition read_file ::
  "(string \<Rightarrow> string) \<Rightarrow> string \<Rightarrow> string \<Rightarrow> filesystem \<Rightarrow> string option \<Rightarrow> response" where
  \<comment> \<open>\<^verbatim>\<open>GET /api/files/read?path=\<close>; \<open>decode\<close> is the UTF-8 decoding that
      \<^verbatim>\<open>readFileSync(filePath, "utf-8")\<close> applies to the bytes.\<close>
  "read_file decode cwd DATA_DIR fs qpath =
     (case safePath cwd DATA_DIR qpath of
        None \<Rightarrow> Response 400 (Error ''Invalid path'')
      | Some filePath \<Rightarrow>
          if \<not> existsSync fs filePath
             \<or> (case statSync fs filePath of Inl err \<Rightarrow> False | Inr st \<Rightarrow> isDirectory_node st)
          then Response 400 (Error ''Not a file'')
          else
            (case statSync fs filePath of
               Inl err \<Rightarrow> Response 500 (Uncaught err)
             | Inr stats \<Rightarrow>
                 if node_size stats > 1024 * 512
                 then Response 400 (Error ''File too large to edit (>512KB)'')
                 else
                   (case readFileSync fs filePath of
                      Inl err \<Rightarrow> Response 400 (Error ''Cannot read file (binary?)'')
                    | Inr b \<Rightarrow> Response 200 (FileContent (decode b) (path_basename filePath)))))"


section \<open>Server Status Probe\<close>

text \<open>
  The awaited call \<^verbatim>\<open>mcStatus(MC_HOST, MC_PORT, {timeout: 5000})\<close> either resolves with
  a status result or rejects with an error that carries a message. The three ways it
  rejects are kept apart although the handler does not look at them.
\<close>

record status_result =
  players_online :: int
  players_max :: int
  version_name :: string
  motd_clean :: string
  roundTripLatency :: int

datatype probe_failure = Timeout | ConnectionRefused | ProtocolError

datatype probe_outcome =
    Resolved status_result
  | Failed probe_failure string

fun get_status :: "probe_outcome \<Rightarrow> response" where
  \<comment> \<open>\<^verbatim>\<open>GET /api/status\<close>: \<^verbatim>\<open>res.json\<close> replies with status 200 in both
      branches.\<close>
  "get_status (Resolved result) =
     Response 200 (Online (players_online result) (players_max result) (version_name result)
                          (motd_clean result) (roundTripLatency result))"
| "get_status (Failed kind message) = Response 200 (Offline message)"

section \<open>Example disks\<close>

definition codeunit_compare :: "string \<Rightarrow> string \<Rightarrow> int" where
  \<comment> \<open>A comparator with the properties assumed of \<^verbatim>\<open>localeCompare\<close>: the
      lexicographic order of the character codes.\<close>
  "codeunit_compare a b = (if a < b then - 1 else if a = b then 0 else 1)"

definition mods_disk :: filesystem where
  "mods_disk =
     [(''/app'', Directory 4096 0),
      (''/app/mods'', Directory 4096 0),
      (''/app/mods/a.jar.disabled.jar'', File ''PK-a'' 7),
      (''/app/mods/x.jar'', File ''PK-one'' 1),
      (''/app/mods/x.jar.disabled'', File ''PK-two'' 2),
      (''/app/data'', Directory 4096 0),
      (''/app/data/world.dat'', File ''level'' 3)]"

definition listing_disk :: "(string \<times> node) list \<Rightarrow> filesystem" where
  \<comment> \<open>The data directory with the given children, in the given order.\<close>
  "listing_disk children =
     (''/app/data'', Directory 4096 0) # map (\<lambda>(n, v). (''/app/data/'' @ n, v)) children"

definition spec_children :: "(string \<times> node) list" where
  "spec_children =
     [(''b.txt'', File ''text'' 5), (''a'', Directory 4096 1), (''c'', Directory 4096 2)]"

definition spec_orders :: "(string \<times> node) list list" where
  \<comment> \<open>The six orders in which the disk may enumerate the three children.\<close>
  "spec_orders =
     (let b = (''b.txt'', File ''text'' 5); a = (''a'', Directory 4096 1);
          c = (''c'', Directory 4096 2)
      in [[b, a, c], [b, c, a], [a, b, c], [a, c, b], [c, a, b], [c, b, a]])"

definition spec_listing :: "file_entry list" where
  "spec_listing =
     [\<lparr>entry_name = ''a'', isDirectory = True, entry_size = 4096, entry_modified = 1\<rparr>,
      \<lparr>entry_name = ''c'', isDirectory = True, entry_size = 4096, entry_modified = 2\<rparr>,
      \<lparr>entry_name = ''b.txt'', isDirectory = False, entry_size = 4, entry_modified = 5\<rparr>]"

definition big_disk :: "nat \<Rightarrow> filesystem" where
  \<comment> \<open>The data directory with one file of \<open>n\<close> bytes.\<close>
  "big_disk n =
     [(''/app/data'', Directory 4096 0),
      (''/app/data/big.txt'', File (replicate n CHR ''a'') 1)]"

section \<open>Path Confiner: the prefix test\<close>

text \<open>
  Claim C1. The Path Confiner should return a resolved path only when it equals the root
  or has the root followed by a separator as a prefix, so that a sibling directory such as
  \<^verbatim>\<open>/app/data2\<close> is rejected for the root \<^verbatim>\<open>/app/data\<close>. The source tests
  \<^verbatim>\<open>full.startsWith(path.resolve(base))\<close>, without the separator: for the root
  \<^verbatim>\<open>/app/data\<close> and the relative path \<^verbatim>\<open>../data2\<close> it returns
  \<^verbatim>\<open>/app/data2\<close>, which is neither the root nor below it.
\<close>

theorem safePath_accepts_sibling:
  "safePath ''/'' ''/app/data'' (Some ''../data2'') = Some ''/app/data2''
   \<and> ''/app/data2'' \<noteq> path_resolve ''/'' [''/app/data'']
   \<and> \<not> startsWith ''/app/data2'' (path_resolve ''/'' [''/app/data''] @ ''/'')"
  by code_simp

section \<open>Mod Store: toggling\<close>

text \<open>
  Claim C2. Toggling a mod twice should restore its file name and its enabled state. The
  source strips the disabled marker with \<^verbatim>\<open>name.replace(".jar.disabled", ".jar")\<close>,
  which rewrites the first occurrence, not the suffix. The enabled mod
  \<^verbatim>\<open>a.jar.disabled.jar\<close> becomes \<^verbatim>\<open>a.jar.disabled.jar.disabled\<close> after one
  toggle and \<^verbatim>\<open>a.jar.jar.disabled\<close> after the second: another name, and still
  disabled.
\<close>

theorem toggle_twice_loses_name:
  "fileFilter ''a.jar.disabled.jar'' = Accepted
   \<and> endsWith ''a.jar.disabled.jar'' ''.jar''
   \<and> fst (toggle ''/app/mods'' mods_disk ''a.jar.disabled.jar'')
       = Response 200 (Message ''Renamed to a.jar.disabled.jar.disabled'')
   \<and> toggle ''/app/mods'' (snd (toggle ''/app/mods'' mods_disk ''a.jar.disabled.jar''))
         ''a.jar.disabled.jar.disabled''
       = (Response 200 (Message ''Renamed to a.jar.jar.disabled''),
          [(''/app'', Directory 4096 0),
           (''/app/mods'', Directory 4096 0),
           (''/app/mods/a.jar.jar.disabled'', File ''PK-a'' 7),
           (''/app/mods/x.jar'', File ''PK-one'' 1),
           (''/app/mods/x.jar.disabled'', File ''PK-two'' 2),
           (''/app/data'', Directory 4096 0),
           (''/app/data/world.dat'', File ''level'' 3)])
   \<and> \<not> endsWith ''a.jar.jar.disabled'' ''.jar''"
  by code_simp

text \<open>
  Claim C3. At most one of \<^verbatim>\<open>x.jar\<close> and \<^verbatim>\<open>x.jar.disabled\<close> should exist, and a
  toggle should not silently overwrite the opposite form. The source renames without
  looking at the target: with both forms on the disk, toggling \<^verbatim>\<open>x.jar\<close> answers
  200 and the former content of \<^verbatim>\<open>x.jar.disabled\<close> is gone.
\<close>

theorem toggle_overwrites_opposite_form:
  "map_of mods_disk ''/app/mods/x.jar'' = Some (File ''PK-one'' 1)
   \<and> map_of mods_disk ''/app/mods/x.jar.disabled'' = Some (File ''PK-two'' 2)
   \<and> toggle ''/app/mods'' mods_disk ''x.jar''
       = (Response 200 (Message ''Renamed to x.jar.disabled''),
          [(''/app'', Directory 4096 0),
           (''/app/mods'', Directory 4096 0),
           (''/app/mods/a.jar.disabled.jar'', File ''PK-a'' 7),
           (''/app/mods/x.jar.disabled'', File ''PK-one'' 1),
           (''/app/data'', Directory 4096 0),
           (''/app/data/world.dat'', File ''level'' 3)])"
  by code_simp

section \<open>Mod Store: deleting\<close>

text \<open>
  Claim C5. A name with a path separator should be rejected by the delete operation of the
  Mod Store. The source joins the decoded route parameter to the mod directory and unlinks
  the result: the name \<^verbatim>\<open>../data/world.dat\<close> deletes a file of the data directory.
\<close>

theorem delete_mod_leaves_mod_directory:
  "CHR ''/'' \<in> set ''../data/world.dat''
   \<and> path_join [''/app/mods'', ''../data/world.dat''] = ''/app/data/world.dat''
   \<and> \<not> below ''/app/mods'' ''/app/data/world.dat''
   \<and> delete_mod ''/app/mods'' mods_disk ''../data/world.dat''
       = (Response 200 (Message ''Deleted ../data/world.dat''),
          [(''/app'', Directory 4096 0),
           (''/app/mods'', Directory 4096 0),
           (''/app/mods/a.jar.disabled.jar'', File ''PK-a'' 7),
           (''/app/mods/x.jar'', File ''PK-one'' 1),
           (''/app/mods/x.jar.disabled'', File ''PK-two'' 2),
           (''/app/data'', Directory 4096 0)])"
  by code_simp

section \<open>Server Status Probe: failures are data\<close>

text \<open>
  Claim C9. Whatever the outcome of the status query, the handler replies with status 200:
  with the snapshot of the server (online, player counts, version, message of the day,
  latency) when the query resolves, and with \<^verbatim>\<open>online: false\<close> and the message of the
  error when it times out, is refused or fails in the protocol. The handler is a total
  function into replies: no outcome makes it raise.
\<close>

theorem get_status_always_200:
  "status (get_status outcome) = 200
   \<and> (case outcome of
        Resolved result \<Rightarrow>
          body (get_status outcome)
            = Online (players_online result) (players_max result) (version_name result)
                     (motd_clean result) (roundTripLatency result)
      | Failed kind message \<Rightarrow> body (get_status outcome) = Offline message)"
  by (cases outcome) simp_all

section \<open>File Tree Manager: the size cap of reading\<close>

text \<open>
  Claim C6, as stated: a file whose size is at or over 512 KiB is refused as too large.
  The source tests \<^verbatim>\<open>stats.size > 1024 * 512\<close>, and its message says
  \<^verbatim>\<open>>512KB\<close>: a file of exactly 524288 bytes is returned.
\<close>

theorem read_file_at_cap_is_returned:
  "node_size (File (replicate 524288 CHR ''a'') 1) = 512 * 1024
   \<and> read_file id ''/'' ''/app/data'' (big_disk 524288) (Some ''big.txt'')
       = Response 200 (FileContent (replicate 524288 CHR ''a'') ''big.txt'')"
  by (simp add: read_file_def big_disk_def safePath_def path_resolve_def normalizeString_def
        normalize_step_def startsWith_def existsSync_def statSync_def readFileSync_def
        path_basename_def last_part_def)

text \<open>
  Claim C6, amended: for a confined path that names a regular file, the read handler
  answers \<^verbatim>\<open>File too large\<close> exactly when the size is strictly over 512 KiB, and
  returns the decoded content with the file's base name exactly when the size is at most
  512 KiB.
\<close>

theorem read_file_size_cap:
  assumes "safePath cwd DATA_DIR qpath = Some filePath"
    and "map_of fs filePath = Some (File b t)"
  shows "(read_file decode cwd DATA_DIR fs qpath
            = Response 400 (Error ''File too large to edit (>512KB)'')
          \<longleftrightarrow> 512 * 1024 < length b)
       \<and> (read_file decode cwd DATA_DIR fs qpath
            = Response 200 (FileContent (decode b) (path_basename filePath))
          \<longleftrightarrow> length b \<le> 512 * 1024)"
  using assms by (simp add: read_file_def existsSync_def statSync_def readFileSync_def)

theorem read_file_size_cap_witness:
  "safePath ''/'' ''/app/data'' (Some ''big.txt'') = Some ''/app/data/big.txt''
   \<and> map_of (big_disk 524289) ''/app/data/big.txt''
       = Some (File (replicate 524289 CHR ''a'') 1)
   \<and> read_file id ''/'' ''/app/data'' (big_disk 524289) (Some ''big.txt'')
       = Response 400 (Error ''File too large to edit (>512KB)'')"
proof -
  have p: "safePath ''/'' ''/app/data'' (Some ''big.txt'') = Some ''/app/data/big.txt''"
    by code_simp
  have f: "map_of (big_disk 524289) ''/app/data/big.txt''
             = Some (File (replicate 524289 CHR ''a'') 1)"
    by (simp add: big_disk_def)
  show ?thesis
    using p f read_file_size_cap [OF p f, of id] by simp
qed

section \<open>File Tree Manager: renaming\<close>



section \<open>Mod Store: what a toggle leaves alone\<close>

lemma map_of_filter_neq:
  "map_of (filter (\<lambda>(k, v). k \<noteq> q) xs) p = (if p = q then None else map_of xs p)"
  by (induction xs) auto

lemma map_of_map_key:
  "(\<forall>k \<in> fst ` set xs. (f k = q) = (k = p))
   \<Longrightarrow> map_of (map (\<lambda>(k, v). (f k, v)) xs) q = map_of xs p"
  by (induction xs) auto

lemma map_of_map_key_None:
  "(\<forall>k \<in> fst ` set xs. f k \<noteq> q) \<Longrightarrow> map_of (map (\<lambda>(k, v). (f k, v)) xs) q = None"
  by (induction xs) auto

lemma filter_absent_key:
  "map_of xs q = None \<Longrightarrow> filter (\<lambda>(k, v). k \<noteq> q) xs = xs"
  by (induction xs) (auto split: if_splits)

lemma nothing_below_file:
  assumes "only_directories_nest fs" and "map_of fs p = Some (File c t)"
    and "k \<in> fst ` set fs"
  shows "\<not> below p k"
proof
  assume b: "below p k"
  from assms(2) have "(p, File c t) \<in> set fs" by (rule map_of_SomeD)
  moreover from assms(3) obtain v where "(k, v) \<in> set fs" by auto
  ultimately have "isDirectory_node (File c t)"
    using assms(1) b unfolding only_directories_nest_def by blast
  then show False by simp
qed

lemma move_file:
  assumes "only_directories_nest fs" and "map_of fs old = Some (File c t)"
    and "map_of fs new = None"
  shows "move fs old new = map (\<lambda>(k, v). (if k = old then new else k, v)) fs"
proof -
  have "filter (\<lambda>(k, v). k \<noteq> new) fs = fs"
    using assms(3) by (rule filter_absent_key)
  moreover have "map (\<lambda>(k, v). (if k = old \<or> below old k
                                 then new @ drop (length old) k else k, v)) fs
               = map (\<lambda>(k, v). (if k = old then new else k, v)) fs"
  proof (rule map_cong [OF refl])
    fix e assume e: "e \<in> set fs"
    obtain k v where kv: "e = (k, v)" by (cases e)
    have "k \<in> fst ` set fs" using e kv by force
    then have "\<not> below old k"
      using nothing_below_file [OF assms(1,2)] by blast
    then show "(case e of (k, v) \<Rightarrow> (if k = old \<or> below old k
                                 then new @ drop (length old) k else k, v))
             = (case e of (k, v) \<Rightarrow> (if k = old then new else k, v))"
      by (simp add: kv)
  qed
  ultimately show ?thesis by (simp add: move_def)
qed

lemma rename_key_lookup:
  assumes "map_of fs new = None" and "old \<noteq> new"
  shows "map_of (map (\<lambda>(k, v). (if k = old then new else k, v)) fs) p
         = (if p = new then map_of fs old else if p = old then None else map_of fs p)"
proof -
  let ?f = "\<lambda>k. if k = old then new else k"
  have absent: "\<forall>k \<in> fst ` set fs. k \<noteq> new"
    using assms(1) by (metis map_of_eq_None_iff)
  show ?thesis
  proof (cases "p = new")
    case True
    have "\<forall>k \<in> fst ` set fs. (?f k = new) = (k = old)"
      using absent by auto
    then show ?thesis using True by (simp add: map_of_map_key)
  next
    case False
    show ?thesis
    proof (cases "p = old")
      case True
      have "\<forall>k \<in> fst ` set fs. ?f k \<noteq> old" using assms(2) by auto
      then show ?thesis using True assms(2) by (simp add: map_of_map_key_None)
    next
      case False
      have "\<forall>k \<in> fst ` set fs. (?f k = p) = (k = p)"
        using False \<open>p \<noteq> new\<close> by auto
      then show ?thesis using False \<open>p \<noteq> new\<close> by (simp add: map_of_map_key)
    qed
  qed
qed

lemma rename_key_nodes: "map snd (map (\<lambda>(k, v). (f k, v)) fs) = map snd fs"
  by (induction fs) auto

text \<open>
  Claim C10. When the target of a toggle is a regular file and the new name is not taken,
  a successful toggle is a single rename: the file is found under the new name with the
  same bytes and time, the old name is free, every other path of the disk holds what it
  held before, and the nodes of the disk are the same, in the same order. The disk is
  assumed well-formed: only directories have entries inside them.
\<close>

theorem toggle_renames_only_target:
  assumes "only_directories_nest fs"
    and "map_of fs (path_join [MODS_DIR, name]) = Some (File c t)"
    and "toggle_newName name = Some newName"
    and "\<not> existsSync fs (path_join [MODS_DIR, newName])"
    and "toggle MODS_DIR fs name = (r, fs')"
    and "status r = 200"
  shows "r = Response 200 (Message (''Renamed to '' @ newName))
       \<and> map_of fs' (path_join [MODS_DIR, newName]) = Some (File c t)
       \<and> map_of fs' (path_join [MODS_DIR, name]) = None
       \<and> (\<forall>p. p \<noteq> path_join [MODS_DIR, name] \<and> p \<noteq> path_join [MODS_DIR, newName]
              \<longrightarrow> map_of fs' p = map_of fs p)
       \<and> map snd fs' = map snd fs"
proof -
  let ?old = "path_join [MODS_DIR, name]" and ?new = "path_join [MODS_DIR, newName]"
  have absent: "map_of fs ?new = None"
    using assms(4) by (simp add: existsSync_def)
  have neq: "?old \<noteq> ?new"
    using assms(2) absent by auto
  have ok: "renameSync fs ?old ?new = Inr (move fs ?old ?new) \<and> r = Response 200 (Message (''Renamed to '' @ newName))
     \<and> fs' = move fs ?old ?new"
    using assms(2,3,5,6) absent neq
    by (auto simp: toggle_def existsSync_def renameSync_def Let_def
             split: option.splits node.splits if_splits sum.splits)
  have mv: "move fs ?old ?new = map (\<lambda>(k, v). (if k = ?old then ?new else k, v)) fs"
    using assms(1,2) absent by (rule move_file)
  have r: "r = Response 200 (Message (''Renamed to '' @ newName))"
    using ok by blast
  have fs': "fs' = map (\<lambda>(k, v). (if k = ?old then ?new else k, v)) fs"
    using ok mv by simp
  have look: "map_of fs' p
         = (if p = ?new then map_of fs ?old else if p = ?old then None else map_of fs p)" for p
    unfolding fs' by (rule rename_key_lookup [OF absent neq])
  have nodes: "map snd fs' = map snd fs"
    unfolding fs' by (rule rename_key_nodes)
  have a: "map_of fs' ?new = Some (File c t)"
    using look [of ?new] assms(2) by simp
  have b: "map_of fs' ?old = None"
    using look [of ?old] neq by simp
  have c: "\<forall>p. p \<noteq> ?old \<and> p \<noteq> ?new \<longrightarrow> map_of fs' p = map_of fs p"
    using look by simp
  from r a b c nodes show ?thesis by blast
qed


theorem toggle_renames_only_target_witness:
  "map_of mods_disk (path_join [''/app/mods'', ''a.jar.disabled.jar''])
       = Some (File ''PK-a'' 7)
   \<and> toggle_newName ''a.jar.disabled.jar'' = Some ''a.jar.disabled.jar.disabled''
   \<and> \<not> existsSync mods_disk (path_join [''/app/mods'', ''a.jar.disabled.jar.disabled''])
   \<and> status (fst (toggle ''/app/mods'' mods_disk ''a.jar.disabled.jar'')) = 200
   \<and> map_of (snd (toggle ''/app/mods'' mods_disk ''a.jar.disabled.jar''))
         (path_join [''/app/mods'', ''a.jar.disabled.jar.disabled''])
       = Some (File ''PK-a'' 7)
   \<and> map_of (snd (toggle ''/app/mods'' mods_disk ''a.jar.disabled.jar''))
         (path_join [''/app/mods'', ''a.jar.disabled.jar'']) = None
   \<and> map_of (snd (toggle ''/app/mods'' mods_disk ''a.jar.disabled.jar''))
         ''/app/mods/x.jar'' = map_of mods_disk ''/app/mods/x.jar''
   \<and> map snd (snd (toggle ''/app/mods'' mods_disk ''a.jar.disabled.jar''))
       = map snd mods_disk"
proof -
  have h1: "only_directories_nest mods_disk"
    by code_simp
  have h2: "map_of mods_disk (path_join [''/app/mods'', ''a.jar.disabled.jar''])
              = Some (File ''PK-a'' 7)"
    by code_simp
  have h3: "toggle_newName ''a.jar.disabled.jar'' = Some ''a.jar.disabled.jar.disabled''"
    by code_simp
  have h4: "\<not> existsSync mods_disk
              (path_join [''/app/mods'', ''a.jar.disabled.jar.disabled''])"
    by code_simp
  have h5: "toggle ''/app/mods'' mods_disk ''a.jar.disabled.jar''
              = (fst (toggle ''/app/mods'' mods_disk ''a.jar.disabled.jar''),
                 snd (toggle ''/app/mods'' mods_disk ''a.jar.disabled.jar''))"
    by simp
  have h6: "status (fst (toggle ''/app/mods'' mods_disk ''a.jar.disabled.jar'')) = 200"
    by code_simp
  have q1: "''/app/mods/x.jar'' \<noteq> path_join [''/app/mods'', ''a.jar.disabled.jar'']"
    by code_simp
  have q2: "''/app/mods/x.jar''
              \<noteq> path_join [''/app/mods'', ''a.jar.disabled.jar.disabled'']"
    by code_simp
  show ?thesis
    using h1 h2 h3 h4 h6 q1 q2 toggle_renames_only_target [OF h1 h2 h3 h4 h5 h6]
    by blast
qed

section \<open>Paths of the children of a directory\<close>

lemma clean_seg_last: "clean_seg n \<Longrightarrow> last n \<noteq> CHR ''/''"
  by (metis clean_seg_def last_in_set)

lemma split_slash_not_Nil: "split_slash s \<noteq> []"
  by (induction s) (auto split: list.splits)

lemma split_slash_append:
  "split_slash (a @ CHR ''/'' # b) = split_slash a @ split_slash b"
  by (induction a) (auto split: list.splits simp: split_slash_not_Nil)

lemma split_slash_single: "CHR ''/'' \<notin> set n \<Longrightarrow> split_slash n = [n]"
  by (induction n) auto

lemma split_slash_no_slash: "s \<in> set (split_slash p) \<Longrightarrow> CHR ''/'' \<notin> set s"
  by (induction p arbitrary: s) (auto split: if_splits list.splits)

lemma split_join_clean:
  "\<forall>s \<in> set segs. clean_seg s \<Longrightarrow> segs \<noteq> [] \<Longrightarrow> split_slash (join_slash segs) = segs"
proof (induction segs rule: join_slash.induct)
  case 1
  then show ?case by simp
next
  case (2 s)
  then show ?case by (simp add: split_slash_single clean_seg_def)
next
  case (3 s t ts)
  then show ?case by (simp add: split_slash_append split_slash_single clean_seg_def)
qed

lemma foldl_step_clean:
  "\<forall>s \<in> set ys. clean_seg s \<Longrightarrow> foldl (normalize_step a) acc ys = acc @ ys"
  by (induction ys arbitrary: acc) (auto simp: normalize_step_def clean_seg_def)

lemma normalize_step_keeps_clean:
  assumes "\<forall>s \<in> set acc. clean_seg s" and "CHR ''/'' \<notin> set seg"
  shows "\<forall>s \<in> set (normalize_step False acc seg). clean_seg s"
  using assms by (auto simp: normalize_step_def clean_seg_def dest: in_set_butlastD)

lemma foldl_step_keeps_clean:
  "\<forall>s \<in> set acc. clean_seg s \<Longrightarrow> \<forall>s \<in> set ys. CHR ''/'' \<notin> set s
   \<Longrightarrow> \<forall>s \<in> set (foldl (normalize_step False) acc ys). clean_seg s"
proof (induction ys arbitrary: acc)
  case Nil
  then show ?case by simp
next
  case (Cons y ys)
  have "\<forall>s \<in> set (normalize_step False acc y). clean_seg s"
    using Cons.prems by (intro normalize_step_keeps_clean) auto
  then show ?case using Cons by simp
qed

lemma normalizeString_clean: "\<forall>s \<in> set (normalizeString False p). clean_seg s"
  unfolding normalizeString_def
  by (rule foldl_step_keeps_clean) (auto dest: split_slash_no_slash)

lemma resolve_loop_absolute:
  "cwd \<noteq> [] \<Longrightarrow> hd cwd = CHR ''/'' \<Longrightarrow> \<exists>rp. resolve_loop (xs @ [cwd]) acc = (rp, True)"
  by (induction xs arbitrary: acc) auto

lemma path_resolve_form:
  assumes "cwd \<noteq> []" and "hd cwd = CHR ''/''"
  shows "\<exists>segs. (\<forall>s \<in> set segs. clean_seg s) \<and> path_resolve cwd args = CHR ''/'' # join_slash segs"
proof -
  obtain rp where "resolve_loop (rev args @ [cwd]) [] = (rp, True)"
    using resolve_loop_absolute [OF assms] by blast
  then have "path_resolve cwd args = CHR ''/'' # join_slash (normalizeString False rp)"
    by (simp add: path_resolve_def)
  then show ?thesis using normalizeString_clean by blast
qed

lemma join_slash_snoc:
  "segs \<noteq> [] \<Longrightarrow> join_slash (segs @ [n]) = join_slash segs @ CHR ''/'' # n"
  by (induction segs rule: join_slash.induct) auto

lemma join_slash_clean_hd:
  "segs \<noteq> [] \<Longrightarrow> \<forall>s \<in> set segs. clean_seg s \<Longrightarrow> join_slash segs \<noteq> []"
  by (induction segs rule: join_slash.induct) (auto simp: clean_seg_def)

lemma join_slash_clean_last:
  "segs \<noteq> [] \<Longrightarrow> \<forall>s \<in> set segs. clean_seg s \<Longrightarrow> last (join_slash segs) \<noteq> CHR ''/''"
proof (induction segs rule: join_slash.induct)
  case 1
  then show ?case by simp
next
  case (2 s)
  then show ?case by (simp add: clean_seg_last)
next
  case (3 s t ts)
  then have "join_slash (t # ts) \<noteq> []" by (intro join_slash_clean_hd) auto
  then show ?case using 3 by simp
qed

lemma path_join_child:
  assumes "\<forall>s \<in> set segs. clean_seg s" and "clean_seg n"
  shows "path_join [CHR ''/'' # join_slash segs, n]
         = dir_prefix (CHR ''/'' # join_slash segs) @ n"
proof -
  let ?d = "CHR ''/'' # join_slash segs"
  have n: "n \<noteq> []" "last n \<noteq> CHR ''/''" "CHR ''/'' \<notin> set n"
    using assms(2) clean_seg_last [OF assms(2)] by (auto simp: clean_seg_def)
  have all: "\<forall>s \<in> set (segs @ [n]). clean_seg s" using assms by simp
  have inner: "split_slash (join_slash segs) = (if segs = [] then [[]] else segs)"
    using assms(1) by (simp add: split_join_clean)
  have "split_slash (?d @ CHR ''/'' # n) = split_slash ?d @ split_slash n"
    by (rule split_slash_append)
  also have "split_slash n = [n]"
    using n(3) by (rule split_slash_single)
  also have "split_slash ?d = [] # split_slash (join_slash segs)"
    by simp
  finally have split:
    "split_slash (?d @ CHR ''/'' # n) = [] # (if segs = [] then [[]] else segs) @ [n]"
    using inner by simp
  have skip: "normalize_step False acc [] = acc" for acc
    by (simp add: normalize_step_def)
  have norm: "normalizeString False (?d @ CHR ''/'' # n) = segs @ [n]"
  proof (cases "segs = []")
    case True
    have "foldl (normalize_step False) [] [n] = [] @ [n]"
      using assms(2) by (intro foldl_step_clean) simp
    then show ?thesis
      unfolding normalizeString_def split using True by (simp add: skip)
  next
    case False
    have "foldl (normalize_step False) [] (segs @ [n]) = [] @ (segs @ [n])"
      using all by (rule foldl_step_clean)
    then show ?thesis
      unfolding normalizeString_def split using False by (simp add: skip)
  qed
  have "path_join [?d, n] = path_normalize (?d @ CHR ''/'' # n)"
    using n(1) by (simp add: path_join_def)
  also have "\<dots> = CHR ''/'' # join_slash (segs @ [n])"
    using n norm by (simp add: path_normalize_def Let_def)
  also have "\<dots> = dir_prefix ?d @ n"
  proof (cases "segs = []")
    case True
    then show ?thesis by (simp add: dir_prefix_def)
  next
    case False
    then have "join_slash segs \<noteq> []" using assms(1) by (rule join_slash_clean_hd)
    then show ?thesis using False by (simp add: dir_prefix_def join_slash_snoc)
  qed
  finally show ?thesis .
qed


lemma dir_prefix_child_neq: "n \<noteq> [] \<Longrightarrow> dir_prefix d @ n \<noteq> d"
  by (auto simp: dir_prefix_def)

lemma child_name_child: "clean_seg n \<Longrightarrow> child_name d (dir_prefix d @ n) = Some n"
  by (simp add: child_name_def below_def startsWith_def dir_prefix_child_neq clean_seg_def)

lemma child_nameD:
  assumes "child_name d k = Some n"
  shows "k = dir_prefix d @ n \<and> clean_seg n"
proof -
  have b: "below d k" and n: "n = drop (length (dir_prefix d)) k" and c: "clean_seg n"
    using assms by (auto simp: child_name_def clean_seg_def Let_def split: if_splits)
  have "take (length (dir_prefix d)) k = dir_prefix d"
    using b by (simp add: below_def startsWith_def)
  then have "k = dir_prefix d @ n"
    using n by (metis append_take_drop_id)
  then show ?thesis using c by simp
qed

lemma dropWhile_to_slash:
  "\<forall>c \<in> set xs. c \<noteq> CHR ''/''
   \<Longrightarrow> dropWhile (\<lambda>c. c \<noteq> CHR ''/'') (xs @ CHR ''/'' # ys) = CHR ''/'' # ys"
  by (induction xs) auto

lemma dropWhile_none: "\<forall>c \<in> set xs. \<not> P c \<Longrightarrow> dropWhile P xs = xs"
  by (cases xs) auto

lemma parent_path_child:
  assumes "\<forall>s \<in> set segs. clean_seg s" and "clean_seg n"
  shows "parent_path (dir_prefix (CHR ''/'' # join_slash segs) @ n) = CHR ''/'' # join_slash segs"
proof -
  have n: "\<forall>c \<in> set (rev n). c \<noteq> CHR ''/''"
    using assms(2) by (auto simp: clean_seg_def)
  show ?thesis
  proof (cases "segs = []")
    case True
    then show ?thesis
      using dropWhile_to_slash [OF n, of "[]"]
      by (simp add: parent_path_def dir_prefix_def)
  next
    case False
    then have "join_slash segs \<noteq> []" using assms(1) by (rule join_slash_clean_hd)
    then show ?thesis
      using dropWhile_to_slash [OF n, of "rev (join_slash segs) @ ''/''"]
      by (simp add: parent_path_def dir_prefix_def)
  qed
qed

lemma last_part_bare:
  assumes "CHR ''/'' \<notin> set n"
  shows "last_part n = n"
proof -
  have d: "dropWhile (\<lambda>c. c = CHR ''/'') (rev n) = rev n"
    using assms by (intro dropWhile_none) auto
  have t: "takeWhile (\<lambda>c. c \<noteq> CHR ''/'') (rev n) = rev n"
    using assms by (intro takeWhile_eq_all_conv [THEN iffD2]) auto
  show ?thesis
    unfolding last_part_def d t by simp
qed

lemma extname_is_suffix:
  assumes "CHR ''/'' \<notin> set n" and "path_extname n = e" and "e \<noteq> []"
  shows "endsWith n e"
proof -
  let ?after = "takeWhile (\<lambda>c. c \<noteq> CHR ''.'') (rev n)"
  let ?upto = "dropWhile (\<lambda>c. c \<noteq> CHR ''.'') (rev n)"
  have b: "last_part n = n" using assms(1) by (rule last_part_bare)
  have e: "e = CHR ''.'' # rev ?after" and u: "?upto \<noteq> []"
    using assms(2,3) by (auto simp: path_extname_def b Let_def split: if_splits)
  then have "hd ?upto = CHR ''.''"
    using hd_dropWhile [of "\<lambda>c. c \<noteq> CHR ''.''" "rev n"] by simp
  then have upto: "?upto = CHR ''.'' # tl ?upto"
    using u by (metis list.collapse)
  have "rev n = ?after @ ?upto" by simp
  then have "n = rev ?upto @ rev ?after"
    by (metis rev_append rev_rev_ident)
  also have "rev ?upto = rev (tl ?upto) @ [CHR ''.'']"
    using upto by (metis rev.simps(2))
  finally have "n = rev (tl ?upto) @ e"
    using e by simp
  then show ?thesis
    by (metis endsWith_def add_diff_cancel_right' append_eq_conv_conj le_add2 length_append)
qed

lemma collect_all_Inr:
  "\<forall>x \<in> set xs. \<exists>y. f x = Inr y \<Longrightarrow> collect f xs = Inr (map (\<lambda>x. projr (f x)) xs)"
  by (induction xs) auto


lemma readdirSync_entries:
  assumes "readdirSync fs d = Inr es"
  shows "((n, v) \<in> set es) = (\<exists>k. (k, v) \<in> set fs \<and> child_name d k = Some n)"
proof -
  have "es = concat (map (\<lambda>(k, v). case child_name d k of None \<Rightarrow> [] | Some n \<Rightarrow> [(n, v)]) fs)"
    using assms by (auto simp: readdirSync_def split: option.splits node.splits)
  then show ?thesis
    by (auto split: option.splits) force
qed

lemma stat_of_child:
  assumes "\<forall>s \<in> set segs. clean_seg s" and "d = CHR ''/'' # join_slash segs"
    and "(k, v) \<in> set fs" and "child_name d k = Some n"
  shows "path_join [d, n] = k \<and> (\<exists>st. statSync fs (path_join [d, n]) = Inr st)"
proof -
  have k: "k = dir_prefix d @ n" and n: "clean_seg n"
    using child_nameD [OF assms(4)] by simp_all
  have j: "path_join [d, n] = k"
    using path_join_child [OF assms(1) n] assms(2) k by simp
  obtain st where "map_of fs k = Some st"
    using assms(3) weak_map_of_SomeI by fastforce
  then show ?thesis using j by (simp add: statSync_def)
qed

lemma get_mods_ok:
  assumes "\<forall>s \<in> set segs. clean_seg s" and "d = CHR ''/'' # join_slash segs"
    and "map_of fs d = Some (Directory s t)"
  shows "\<exists>es. readdirSync fs d = Inr es
          \<and> get_mods d fs
              = Response 200 (Mods (map (\<lambda>f. projr (mod_of d fs f))
                                        (filter is_mod_name (map fst es))))"
proof -
  obtain es where es: "readdirSync fs d = Inr es"
    using assms(3) by (simp add: readdirSync_def)
  have "\<forall>f \<in> set (filter is_mod_name (map fst es)). \<exists>y. mod_of d fs f = Inr y"
  proof
    fix f assume "f \<in> set (filter is_mod_name (map fst es))"
    then obtain v where "(f, v) \<in> set es" by auto
    then obtain k where "(k, v) \<in> set fs" "child_name d k = Some f"
      using readdirSync_entries [OF es] by blast
    then obtain st where "statSync fs (path_join [d, f]) = Inr st"
      using stat_of_child [OF assms(1,2)] by blast
    then show "\<exists>y. mod_of d fs f = Inr y" by (simp add: mod_of_def)
  qed
  then have "collect (mod_of d fs) (filter is_mod_name (map fst es))
             = Inr (map (\<lambda>f. projr (mod_of d fs f)) (filter is_mod_name (map fst es)))"
    by (rule collect_all_Inr)
  then show ?thesis using es by (simp add: get_mods_def)
qed

lemma toLowerCase_jar: "toLowerCase ''.jar'' = ''.jar''"
  by code_simp

lemma extname_jar_clean:
  assumes "path_extname n = ''.jar''" and "CHR ''/'' \<notin> set n"
  shows "clean_seg n"
proof -
  have "path_extname [] = []" "path_extname ''.'' = []" "path_extname ''..'' = []"
    by code_simp+
  then show ?thesis using assms by (auto simp: clean_seg_def)
qed


section \<open>Mod Store: what upload accepts and what the listing shows\<close>

text \<open>
  Claim C4, as stated: an accepted upload has the extension \<^verbatim>\<open>.jar\<close> exactly and is
  listed as an enabled mod. The filter lower-cases the extension before it compares, the
  listing compares the end of the name as it is: \<^verbatim>\<open>X.JAR\<close> is accepted, stored, and
  absent from the listing.
\<close>

theorem upload_accepts_uppercase_extension:
  "fileFilter ''X.JAR'' = Accepted
   \<and> path_extname ''X.JAR'' \<noteq> ''.jar''
   \<and> modStorage ''/app/mods'' mods_disk ''X.JAR'' ''PK-x'' 9
       = Inr (mods_disk @ [(''/app/mods/X.JAR'', File ''PK-x'' 9)])
   \<and> get_mods ''/app/mods'' (mods_disk @ [(''/app/mods/X.JAR'', File ''PK-x'' 9)])
       = Response 200 (Mods
           [\<lparr>mod_name = ''a.jar.disabled.jar'', mod_size = 4, enabled = True,
              mod_modified = 7\<rparr>,
            \<lparr>mod_name = ''x.jar'', mod_size = 6, enabled = True, mod_modified = 1\<rparr>,
            \<lparr>mod_name = ''x.jar.disabled'', mod_size = 6, enabled = False,
              mod_modified = 2\<rparr>])"
  by code_simp

text \<open>
  Claim C4, amended: the upload filter accepts a file exactly when its extension,
  lower-cased, is \<^verbatim>\<open>.jar\<close>, and rejects any other with
  \<^verbatim>\<open>Only .jar files are allowed\<close>. A file whose extension is \<^verbatim>\<open>.jar\<close> exactly is
  accepted and, once stored under its bare file name in the mod directory (an absolute,
  normalized path), the listing that follows shows it with its size, its time and
  \<^verbatim>\<open>enabled = true\<close>.
\<close>

theorem upload_filter_and_listing:
  "fileFilter originalname
     = (if toLowerCase (path_extname originalname) = ''.jar'' then Accepted
        else Rejected ''Only .jar files are allowed'')
   \<and> (path_extname originalname = ''.jar'' \<and> CHR ''/'' \<notin> set originalname
        \<and> path_resolve ''/'' [MODS_DIR] = MODS_DIR
        \<and> modStorage MODS_DIR fs originalname data now = Inr fs'
      \<longrightarrow> fileFilter originalname = Accepted
          \<and> (\<exists>mods. get_mods MODS_DIR fs' = Response 200 (Mods mods)
                \<and> \<lparr>mod_name = originalname, mod_size = length data, enabled = True,
                     mod_modified = now\<rparr> \<in> set mods))"
proof (intro conjI impI)
  show "fileFilter originalname
          = (if toLowerCase (path_extname originalname) = ''.jar'' then Accepted
             else Rejected ''Only .jar files are allowed'')"
    by (simp add: fileFilter_def)
next
  assume a: "path_extname originalname = ''.jar'' \<and> CHR ''/'' \<notin> set originalname
        \<and> path_resolve ''/'' [MODS_DIR] = MODS_DIR
        \<and> modStorage MODS_DIR fs originalname data now = Inr fs'"
  then show "fileFilter originalname = Accepted"
    by (simp add: fileFilter_def toLowerCase_jar)
  let ?p = "path_join [MODS_DIR, originalname]"
  let ?e = "\<lparr>mod_name = originalname, mod_size = length data, enabled = True,
             mod_modified = now\<rparr>"
  have n: "clean_seg originalname"
    using a by (intro extname_jar_clean) simp_all
  obtain segs where segs: "\<forall>s \<in> set segs. clean_seg s"
      and d: "MODS_DIR = CHR ''/'' # join_slash segs"
    using path_resolve_form [of "''/''" "[MODS_DIR]"] a by auto
  have p: "?p = dir_prefix MODS_DIR @ originalname"
    using path_join_child [OF segs n] d by simp
  have parent: "parent_path ?p = MODS_DIR"
    using parent_path_child [OF segs n] d p by simp
  have neq: "MODS_DIR \<noteq> ?p"
    using p n dir_prefix_child_neq [of originalname MODS_DIR] by (simp add: clean_seg_def)
  have w: "writeStream fs ?p data now = Inr fs'"
    using a by (simp add: modStorage_def)
  obtain s t where dir: "map_of fs MODS_DIR = Some (Directory s t)"
    and fs': "fs' = filter (\<lambda>(k, v). k \<noteq> ?p) fs @ [(?p, File data now)]"
    using w unfolding writeStream_def parent
    by (auto split: option.splits node.splits)
  have dir': "map_of fs' MODS_DIR = Some (Directory s t)"
    unfolding fs' using dir neq by (simp add: map_add_def map_of_filter_neq)
  have stored: "map_of fs' ?p = Some (File data now)"
    unfolding fs' by (simp add: map_add_def map_of_filter_neq)
  obtain es where es: "readdirSync fs' MODS_DIR = Inr es"
    and mods: "get_mods MODS_DIR fs'
              = Response 200 (Mods (map (\<lambda>f. projr (mod_of MODS_DIR fs' f))
                                        (filter is_mod_name (map fst es))))"
    using get_mods_ok [OF segs d dir'] by blast
  have "(?p, File data now) \<in> set fs'" unfolding fs' by simp
  moreover have "child_name MODS_DIR ?p = Some originalname"
    unfolding p using n by (rule child_name_child)
  ultimately have "(originalname, File data now) \<in> set es"
    using readdirSync_entries [OF es] by blast
  then have "originalname \<in> set (map fst es)" by force
  moreover have jar: "endsWith originalname ''.jar''"
    using a by (intro extname_is_suffix [of originalname]) simp_all
  ultimately have listed: "originalname \<in> set (filter is_mod_name (map fst es))"
    by (simp add: is_mod_name_def)
  have "projr (mod_of MODS_DIR fs' originalname) = ?e"
    using stored jar by (simp add: mod_of_def statSync_def)
  then have "?e \<in> set (map (\<lambda>f. projr (mod_of MODS_DIR fs' f))
                           (filter is_mod_name (map fst es)))"
    using listed by force
  then show "\<exists>mods. get_mods MODS_DIR fs' = Response 200 (Mods mods) \<and> ?e \<in> set mods"
    using mods by blast
qed

theorem upload_filter_and_listing_witness:
  "path_extname ''coolmod.jar'' = ''.jar''
   \<and> CHR ''/'' \<notin> set ''coolmod.jar''
   \<and> path_resolve ''/'' [''/app/mods''] = ''/app/mods''
   \<and> modStorage ''/app/mods'' mods_disk ''coolmod.jar'' ''PK-cool'' 9
       = Inr (mods_disk @ [(''/app/mods/coolmod.jar'', File ''PK-cool'' 9)])
   \<and> fileFilter ''coolmod.jar'' = Accepted
   \<and> (\<exists>mods. get_mods ''/app/mods''
                  (mods_disk @ [(''/app/mods/coolmod.jar'', File ''PK-cool'' 9)])
                = Response 200 (Mods mods)
          \<and> \<lparr>mod_name = ''coolmod.jar'', mod_size = length ''PK-cool'', enabled = True,
               mod_modified = 9\<rparr> \<in> set mods)"
proof -
  have h1: "path_extname ''coolmod.jar'' = ''.jar''"
    by code_simp
  have h2: "CHR ''/'' \<notin> set ''coolmod.jar''"
    by simp
  have h3: "path_resolve ''/'' [''/app/mods''] = ''/app/mods''"
    by code_simp
  have h4: "modStorage ''/app/mods'' mods_disk ''coolmod.jar'' ''PK-cool'' 9
              = Inr (mods_disk @ [(''/app/mods/coolmod.jar'', File ''PK-cool'' 9)])"
    by code_simp
  show ?thesis
    using h1 h2 h3 h4
      upload_filter_and_listing [of "''coolmod.jar''" "''/app/mods''" mods_disk "''PK-cool''" 9
        "mods_disk @ [(''/app/mods/coolmod.jar'', File ''PK-cool'' 9)]"]
    by blast
qed

section \<open>File Tree Manager: the order of a listing\<close>

lemma mset_insert_by: "mset (insert_by cmp x xs) = add_mset x (mset xs)"
  by (induction xs) auto

lemma mset_array_sort: "mset (array_sort cmp xs) = mset xs"
  unfolding array_sort_def by (induction xs) (auto simp: mset_insert_by)

lemma set_insert_by: "set (insert_by cmp x xs) = insert x (set xs)"
  by (induction xs) auto

lemma sorted_insert_by:
  assumes total: "\<And>a b. cmp a b \<le> 0 \<or> cmp b a \<le> 0"
    and trans: "\<And>a b c. cmp a b \<le> 0 \<Longrightarrow> cmp b c \<le> 0 \<Longrightarrow> cmp a c \<le> 0"
  shows "sorted_wrt (\<lambda>a b. cmp a b \<le> 0) xs
         \<Longrightarrow> sorted_wrt (\<lambda>a b. cmp a b \<le> 0) (insert_by cmp x xs)"
proof (induction xs)
  case Nil
  then show ?case by simp
next
  case (Cons y ys)
  show ?case
  proof (cases "cmp x y \<le> 0")
    case True
    then have "\<forall>z \<in> set ys. cmp x z \<le> 0"
      using Cons.prems trans by auto
    then show ?thesis using True Cons.prems by simp
  next
    case False
    then have "cmp y x \<le> 0" using total [of x y] by simp
    then show ?thesis
      using False Cons by (simp add: set_insert_by)
  qed
qed

lemma sorted_array_sort:
  assumes total: "\<And>a b. cmp a b \<le> 0 \<or> cmp b a \<le> 0"
    and trans: "\<And>a b c. cmp a b \<le> 0 \<Longrightarrow> cmp b c \<le> 0 \<Longrightarrow> cmp a c \<le> 0"
  shows "sorted_wrt (\<lambda>a b. cmp a b \<le> 0) (array_sort cmp xs)"
  unfolding array_sort_def
  by (induction xs) (auto intro: sorted_insert_by [OF total trans])

lemma compare_items_total:
  assumes "\<forall>a b. lc a b \<le> 0 \<or> lc b a \<le> 0"
  shows "compare_items lc x y \<le> 0 \<or> compare_items lc y x \<le> 0"
proof (cases "isDirectory x = isDirectory y")
  case True
  have "lc (entry_name x) (entry_name y) \<le> 0 \<or> lc (entry_name y) (entry_name x) \<le> 0"
    using assms by blast
  then show ?thesis using True by (simp add: compare_items_def)
next
  case False
  then show ?thesis by (cases "isDirectory x") (simp_all add: compare_items_def)
qed

lemma compare_items_order:
  assumes "compare_items lc x y \<le> 0"
  shows "(isDirectory y \<longrightarrow> isDirectory x)
       \<and> (isDirectory x = isDirectory y \<longrightarrow> lc (entry_name x) (entry_name y) \<le> 0)"
proof (cases "isDirectory x = isDirectory y")
  case True
  then show ?thesis using assms by (simp add: compare_items_def)
next
  case False
  then have "isDirectory x"
    using assms by (cases "isDirectory x") (simp_all add: compare_items_def)
  then show ?thesis using False by simp
qed

lemma compare_items_trans:
  assumes "\<forall>a b c. lc a b \<le> 0 \<and> lc b c \<le> 0 \<longrightarrow> lc a c \<le> 0"
    and xy: "compare_items lc x y \<le> 0" and yz: "compare_items lc y z \<le> 0"
  shows "compare_items lc x z \<le> 0"
proof (cases "isDirectory x = isDirectory z")
  case True
  have "isDirectory y = isDirectory x"
    using compare_items_order [OF xy] compare_items_order [OF yz] True by blast
  then have "lc (entry_name x) (entry_name y) \<le> 0" "lc (entry_name y) (entry_name z) \<le> 0"
    using compare_items_order [OF xy] compare_items_order [OF yz] True by simp_all
  then have "lc (entry_name x) (entry_name z) \<le> 0"
    using assms(1) by blast
  then show ?thesis using True by (simp add: compare_items_def)
next
  case False
  have "isDirectory z \<longrightarrow> isDirectory x"
    using compare_items_order [OF xy] compare_items_order [OF yz] by blast
  then have "isDirectory x" using False by blast
  then show ?thesis using False by (simp add: compare_items_def)
qed

lemma get_files_ok:
  assumes "\<forall>s \<in> set segs. clean_seg s" and "dir = CHR ''/'' # join_slash segs"
    and "safePath cwd DATA_DIR qpath = Some dir"
    and "map_of fs dir = Some (Directory s t)"
  shows "\<exists>es. readdirSync fs dir = Inr es
          \<and> get_files lc cwd DATA_DIR fs qpath
              = Response 200 (Items (array_sort (compare_items lc)
                                       (map (\<lambda>e. projr (item_of fs dir e)) es)))
          \<and> (\<forall>e \<in> set es. entry_name (projr (item_of fs dir e)) = fst e
                \<and> isDirectory (projr (item_of fs dir e)) = isDirectory_node (snd e))"
proof -
  obtain es where es: "readdirSync fs dir = Inr es"
    using assms(4) by (simp add: readdirSync_def)
  have each: "\<exists>st. statSync fs (path_join [dir, fst e]) = Inr st" if "e \<in> set es" for e
  proof -
    have "(fst e, snd e) \<in> set es" using that by simp
    then obtain k where "(k, snd e) \<in> set fs" "child_name dir k = Some (fst e)"
      using readdirSync_entries [OF es] by blast
    then show ?thesis
      using stat_of_child [OF assms(1,2)] by blast
  qed
  have item: "item_of fs dir e
                = Inr \<lparr>entry_name = fst e, isDirectory = isDirectory_node (snd e),
                       entry_size = node_size st, entry_modified = node_mtime st\<rparr>"
    if "statSync fs (path_join [dir, fst e]) = Inr st" for e st
    using that by (simp add: item_of_def)
  have "\<forall>e \<in> set es. \<exists>y. item_of fs dir e = Inr y"
  proof
    fix e assume "e \<in> set es"
    then obtain st where "statSync fs (path_join [dir, fst e]) = Inr st"
      using each by blast
    then show "\<exists>y. item_of fs dir e = Inr y"
      using item [of e st] by simp
  qed
  then have "collect (item_of fs dir) es = Inr (map (\<lambda>e. projr (item_of fs dir e)) es)"
    by (rule collect_all_Inr)
  moreover have "\<forall>e \<in> set es. entry_name (projr (item_of fs dir e)) = fst e
                \<and> isDirectory (projr (item_of fs dir e)) = isDirectory_node (snd e)"
  proof
    fix e assume "e \<in> set es"
    then obtain st where "statSync fs (path_join [dir, fst e]) = Inr st"
      using each by blast
    then show "entry_name (projr (item_of fs dir e)) = fst e
                \<and> isDirectory (projr (item_of fs dir e)) = isDirectory_node (snd e)"
      using item [of e st] by simp
  qed
  ultimately show ?thesis
    using es assms(3,4) by (simp add: get_files_def existsSync_def del: collect.simps)
qed

lemma data_dir: "safePath ''/'' ''/app/data'' None = Some ''/app/data''"
  by code_simp

lemma spec_example:
  assumes ac: "lc ''a'' ''c'' < 0" and ca: "0 < lc ''c'' ''a''"
  shows "\<forall>children \<in> set spec_orders.
           get_files lc ''/'' ''/app/data'' (listing_disk children) None
             = Response 200 (Items spec_listing)"
proof -
  let ?b = "(''b.txt'', File ''text'' 5)" and ?a = "(''a'', Directory 4096 1)"
    and ?c = "(''c'', Directory 4096 2)"
  note defs = get_files_def data_dir existsSync_def listing_disk_def
        readdirSync_def child_name_def below_def dir_prefix_def startsWith_def item_of_def
        statSync_def path_join_def path_normalize_def normalizeString_def normalize_step_def
        array_sort_def compare_items_def spec_listing_def
  have 1: "get_files lc ''/'' ''/app/data'' (listing_disk [?b, ?a, ?c]) None
             = Response 200 (Items spec_listing)"
    using ac ca by (simp add: defs)
  have 2: "get_files lc ''/'' ''/app/data'' (listing_disk [?b, ?c, ?a]) None
             = Response 200 (Items spec_listing)"
    using ac ca by (simp add: defs)
  have 3: "get_files lc ''/'' ''/app/data'' (listing_disk [?a, ?b, ?c]) None
             = Response 200 (Items spec_listing)"
    using ac ca by (simp add: defs)
  have 4: "get_files lc ''/'' ''/app/data'' (listing_disk [?a, ?c, ?b]) None
             = Response 200 (Items spec_listing)"
    using ac ca by (simp add: defs)
  have 5: "get_files lc ''/'' ''/app/data'' (listing_disk [?c, ?a, ?b]) None
             = Response 200 (Items spec_listing)"
    using ac ca by (simp add: defs)
  have 6: "get_files lc ''/'' ''/app/data'' (listing_disk [?c, ?b, ?a]) None
             = Response 200 (Items spec_listing)"
    using ac ca by (simp add: defs)
  show ?thesis
    unfolding spec_orders_def Let_def using 1 2 3 4 5 6 by simp
qed

text \<open>
  Claim C8. For an existing directory of the confined subtree the listing handler answers
  200 with one item for each immediate child, in an order in which every directory comes
  before every file and, among directories and among files, names ascend in the order of
  \<^verbatim>\<open>localeCompare\<close>. The comparison of the runtime is assumed to be a total preorder,
  and the working directory of the process to be absolute. For the children
  \<^verbatim>\<open>b.txt\<close> (file), \<^verbatim>\<open>a\<close> and \<^verbatim>\<open>c\<close> (directories), in whichever order the disk
  enumerates them, the listing is \<^verbatim>\<open>a\<close>, \<^verbatim>\<open>c\<close>, \<^verbatim>\<open>b.txt\<close>, as soon as
  \<^verbatim>\<open>a\<close> collates before \<^verbatim>\<open>c\<close>.
\<close>

theorem listing_order:
  assumes total: "\<forall>a b. localeCompare a b \<le> 0 \<or> localeCompare b a \<le> 0"
    and trans: "\<forall>a b c. localeCompare a b \<le> 0 \<and> localeCompare b c \<le> 0
                  \<longrightarrow> localeCompare a c \<le> 0"
    and cwd: "cwd \<noteq> [] \<and> hd cwd = CHR ''/''"
    and dir: "safePath cwd DATA_DIR qpath = Some dir"
    and ex: "map_of fs dir = Some (Directory s t)"
  shows "(\<exists>entries items.
            readdirSync fs dir = Inr entries
          \<and> get_files localeCompare cwd DATA_DIR fs qpath = Response 200 (Items items)
          \<and> mset (map (\<lambda>i. (entry_name i, isDirectory i)) items)
              = mset (map (\<lambda>(n, v). (n, isDirectory_node v)) entries)
          \<and> (\<forall>i j. i < j \<and> j < length items
                \<longrightarrow> (isDirectory (items ! j) \<longrightarrow> isDirectory (items ! i))
                  \<and> (isDirectory (items ! i) = isDirectory (items ! j)
                      \<longrightarrow> localeCompare (entry_name (items ! i)) (entry_name (items ! j)) \<le> 0)))
       \<and> (localeCompare ''a'' ''c'' < 0 \<and> 0 < localeCompare ''c'' ''a''
          \<longrightarrow> (\<forall>children \<in> set spec_orders.
                 get_files localeCompare ''/'' ''/app/data'' (listing_disk children) None
                   = Response 200 (Items spec_listing)))"
proof (intro conjI impI)
  let ?cmp = "compare_items localeCompare"
  have dir_eq: "dir = path_resolve cwd [DATA_DIR, (case qpath of None \<Rightarrow> [] | Some r \<Rightarrow> r)]"
    using dir by (auto simp: safePath_def Let_def split: if_splits)
  obtain segs where segs: "\<forall>s \<in> set segs. clean_seg s"
      and form: "dir = CHR ''/'' # join_slash segs"
    using path_resolve_form [of cwd] cwd dir_eq by blast
  obtain es where es: "readdirSync fs dir = Inr es"
    and resp: "get_files localeCompare cwd DATA_DIR fs qpath
              = Response 200 (Items (array_sort ?cmp (map (\<lambda>e. projr (item_of fs dir e)) es)))"
    and fields: "\<forall>e \<in> set es. entry_name (projr (item_of fs dir e)) = fst e
                \<and> isDirectory (projr (item_of fs dir e)) = isDirectory_node (snd e)"
    using get_files_ok [OF segs form dir ex, of localeCompare] by blast
  let ?raw = "map (\<lambda>e. projr (item_of fs dir e)) es"
  let ?sorted = "array_sort ?cmp ?raw"
  have raw: "map (\<lambda>i. (entry_name i, isDirectory i)) ?raw
        = map (\<lambda>(n, v). (n, isDirectory_node v)) es"
    using fields by (simp add: case_prod_beta)
  have "mset (map (\<lambda>i. (entry_name i, isDirectory i)) ?sorted)
        = image_mset (\<lambda>i. (entry_name i, isDirectory i)) (mset ?sorted)"
    by (simp only: mset_map)
  also have "\<dots> = image_mset (\<lambda>i. (entry_name i, isDirectory i)) (mset ?raw)"
    by (simp only: mset_array_sort)
  also have "\<dots> = mset (map (\<lambda>i. (entry_name i, isDirectory i)) ?raw)"
    by (simp only: mset_map)
  finally have m: "mset (map (\<lambda>i. (entry_name i, isDirectory i)) ?sorted)
        = mset (map (\<lambda>(n, v). (n, isDirectory_node v)) es)"
    by (simp only: raw)
  have sorted: "sorted_wrt (\<lambda>a b. ?cmp a b \<le> 0) ?sorted"
  proof (rule sorted_array_sort)
    show "?cmp a b \<le> 0 \<or> ?cmp b a \<le> 0" for a b
      using total by (rule compare_items_total)
    show "?cmp a c \<le> 0" if "?cmp a b \<le> 0" "?cmp b c \<le> 0" for a b c
      using trans that by (rule compare_items_trans)
  qed
  have ord: "\<forall>i j. i < j \<and> j < length ?sorted
                \<longrightarrow> (isDirectory (?sorted ! j) \<longrightarrow> isDirectory (?sorted ! i))
                  \<and> (isDirectory (?sorted ! i) = isDirectory (?sorted ! j)
                      \<longrightarrow> localeCompare (entry_name (?sorted ! i)) (entry_name (?sorted ! j)) \<le> 0)"
  proof (intro allI impI)
    fix i j assume "i < j \<and> j < length ?sorted"
    then have "?cmp (?sorted ! i) (?sorted ! j) \<le> 0"
      using sorted by (simp add: sorted_wrt_iff_nth_less)
    then show "(isDirectory (?sorted ! j) \<longrightarrow> isDirectory (?sorted ! i))
                  \<and> (isDirectory (?sorted ! i) = isDirectory (?sorted ! j)
                      \<longrightarrow> localeCompare (entry_name (?sorted ! i)) (entry_name (?sorted ! j)) \<le> 0)"
      by (rule compare_items_order)
  qed
  show "\<exists>entries items.
            readdirSync fs dir = Inr entries
          \<and> get_files localeCompare cwd DATA_DIR fs qpath = Response 200 (Items items)
          \<and> mset (map (\<lambda>i. (entry_name i, isDirectory i)) items)
              = mset (map (\<lambda>(n, v). (n, isDirectory_node v)) entries)
          \<and> (\<forall>i j. i < j \<and> j < length items
                \<longrightarrow> (isDirectory (items ! j) \<longrightarrow> isDirectory (items ! i))
                  \<and> (isDirectory (items ! i) = isDirectory (items ! j)
                      \<longrightarrow> localeCompare (entry_name (items ! i)) (entry_name (items ! j)) \<le> 0))"
    using es resp m ord by (intro exI [of _ es] exI [of _ ?sorted] conjI)
next
  assume "localeCompare ''a'' ''c'' < 0 \<and> 0 < localeCompare ''c'' ''a''"
  then show "\<forall>children \<in> set spec_orders.
                 get_files localeCompare ''/'' ''/app/data'' (listing_disk children) None
                   = Response 200 (Items spec_listing)"
    using spec_example by blast
qed

lemma codeunit_compare_le: "(codeunit_compare a b \<le> 0) = (a \<le> b)"
  by (auto simp: codeunit_compare_def)

theorem listing_order_witness:
  "safePath ''/'' ''/app/data'' None = Some ''/app/data''
   \<and> map_of (listing_disk spec_children) ''/app/data'' = Some (Directory 4096 0)
   \<and> codeunit_compare ''a'' ''c'' < 0 \<and> 0 < codeunit_compare ''c'' ''a''
   \<and> spec_children \<in> set spec_orders
   \<and> get_files codeunit_compare ''/'' ''/app/data'' (listing_disk spec_children) None
       = Response 200 (Items spec_listing)
   \<and> (\<exists>entries items.
          readdirSync (listing_disk spec_children) ''/app/data'' = Inr entries
        \<and> get_files codeunit_compare ''/'' ''/app/data'' (listing_disk spec_children) None
            = Response 200 (Items items)
        \<and> mset (map (\<lambda>i. (entry_name i, isDirectory i)) items)
            = mset (map (\<lambda>(n, v). (n, isDirectory_node v)) entries))"
proof -
  have total: "\<forall>a b. codeunit_compare a b \<le> 0 \<or> codeunit_compare b a \<le> 0"
    by (auto simp: codeunit_compare_le)
  have trans: "\<forall>a b c. codeunit_compare a b \<le> 0 \<and> codeunit_compare b c \<le> 0
                 \<longrightarrow> codeunit_compare a c \<le> 0"
    by (auto simp: codeunit_compare_le)
  have cwd: "''/'' \<noteq> [] \<and> hd ''/'' = CHR ''/''"
    by simp
  have dir: "safePath ''/'' ''/app/data'' None = Some ''/app/data''"
    by (rule data_dir)
  have ex: "map_of (listing_disk spec_children) ''/app/data'' = Some (Directory 4096 0)"
    by (simp add: listing_disk_def)
  have ac: "codeunit_compare ''a'' ''c'' < 0"
    by code_simp
  have ca: "0 < codeunit_compare ''c'' ''a''"
    by code_simp
  have mem: "spec_children \<in> set spec_orders"
    by (simp add: spec_children_def spec_orders_def Let_def)
  show ?thesis
    using total trans dir ex ac ca mem listing_order [OF total trans cwd dir ex]
    by blast
qed

end
